theory Spec2Isabelle
  imports Complex_Main
begin

section \<open>Scalars and fixed-size arrays\<close>

text \<open>
  The source computes in \<^verbatim>\<open>rslm::cfg::real\<close> (a C++ \<^verbatim>\<open>double\<close>). The embedding
  idealises this scalar type as the mathematical reals \<^typ>\<open>real\<close>: every arithmetic
  operation is exact, \<^verbatim>\<open>std::fabs\<close> is \<^term>\<open>abs\<close> and \<^verbatim>\<open>std::sqrt\<close> is
  \<^term>\<open>sqrt\<close>. Rounding, overflow, infinities and NaN are outside this model. So is a
  division by zero, which yields an infinity or a NaN in the source and \<open>0\<close> in HOL: a
  statement quantified over all constants says nothing about the source for a
  finite-difference step \<open>fd_h = 0\<close>.

  \<^verbatim>\<open>std::array<T,4>\<close> and the C arrays \<^verbatim>\<open>T[4]\<close> are the four-slot datatype
  \<open>arr4\<close>; \<open>at4\<close> is \<^verbatim>\<open>operator[]\<close>. Every index in the source is a loop variable
  running over 0..3, so a read outside that range never happens; the model leaves it
  unspecified.
\<close>

datatype 'a arr4 = Arr4 'a 'a 'a 'a

fun at4 :: "'a arr4 \<Rightarrow> nat \<Rightarrow> 'a" where
  "at4 (Arr4 a b c d) i =
     (if i = 0 then a else if i = 1 then b else if i = 2 then c
      else if i = 3 then d else undefined)"

fun upd4 :: "'a arr4 \<Rightarrow> nat \<Rightarrow> 'a \<Rightarrow> 'a arr4" where
  "upd4 (Arr4 a b c d) i v =
     (if i = 0 then Arr4 v b c d else if i = 1 then Arr4 a v c d
      else if i = 2 then Arr4 a b v d else if i = 3 then Arr4 a b c v
      else Arr4 a b c d)"

text \<open>A loop \<^verbatim>\<open>for (i=0;i<4;++i) out[i] = f(i)\<close> that fills every slot from values
  that the loop itself does not change.\<close>

definition tab4 :: "(nat \<Rightarrow> 'a) \<Rightarrow> 'a arr4" where
  "tab4 f = Arr4 (f 0) (f 1) (f 2) (f 3)"

text \<open>A loop \<^verbatim>\<open>for (i=0;i<4;++i) body(i)\<close> over a state, and the accumulation loop
  \<^verbatim>\<open>real s=0; for (k=0;k<4;++k) s += f(k)\<close>, both in the source's order.\<close>

definition for4 :: "(nat \<Rightarrow> 's \<Rightarrow> 's) \<Rightarrow> 's \<Rightarrow> 's" where
  "for4 body s = foldl (\<lambda>s i. body i s) s [0, 1, 2, 3]"

definition acc4 :: "(nat \<Rightarrow> real) \<Rightarrow> real" where
  "acc4 f = for4 (\<lambda>k s. s + f k) 0"

type_synonym vec4 = "real arr4"
type_synonym mat4 = "real arr4 arr4"

abbreviation m4 :: "mat4 \<Rightarrow> nat \<Rightarrow> nat \<Rightarrow> real" where
  "m4 A r c \<equiv> at4 (at4 A r) c"

section \<open>linalg.hpp\<close>

text \<open>The default-constructed \<^verbatim>\<open>vec4\<close> and \<^verbatim>\<open>mat4\<close>: all components zero.\<close>

definition vec4_default :: vec4 where
  "vec4_default = Arr4 0 0 0 0"

definition mat4_default :: mat4 where
  "mat4_default = Arr4 vec4_default vec4_default vec4_default vec4_default"

text \<open>\<^verbatim>\<open>sym4(const mat4&)\<close>: the symmetrising constructor; \<^verbatim>\<open>sym4\<close> derives from
  \<^verbatim>\<open>mat4\<close> and has the same components.\<close>

definition sym4 :: "mat4 \<Rightarrow> mat4" where
  "sym4 A = tab4 (\<lambda>r. tab4 (\<lambda>c. 0.5 * (m4 A r c + m4 A c r)))"

definition from_diag :: "real \<Rightarrow> real \<Rightarrow> real \<Rightarrow> real \<Rightarrow> mat4" where
  "from_diag a0 a1 a2 a3 =
     Arr4 (Arr4 a0 0 0 0) (Arr4 0 a1 0 0) (Arr4 0 0 a2 0) (Arr4 0 0 0 a3)"

definition identity :: mat4 where
  "identity = Arr4 (Arr4 1 0 0 0) (Arr4 0 1 0 0) (Arr4 0 0 1 0) (Arr4 0 0 0 1)"

definition minkowski_eta :: mat4 where
  "minkowski_eta = from_diag (- 1) 1 1 1"

definition transpose4 :: "mat4 \<Rightarrow> mat4" where
  "transpose4 A = tab4 (\<lambda>r. tab4 (\<lambda>c. m4 A c r))"



definition norm_inf :: "mat4 \<Rightarrow> real" where
  "norm_inf A =
     for4 (\<lambda>r best. let s = acc4 (\<lambda>c. \<bar>m4 A r c\<bar>) in if s > best then s else best) 0"

subsection \<open>inverse: Gauss-Jordan on the augmented 4x8 system\<close>

text \<open>\<^verbatim>\<open>real aug[4][8]\<close>: four rows, each a list of eight scalars.\<close>

type_synonym aug48 = "real list arr4"

definition cols8 :: "nat list" where
  "cols8 = [0, 1, 2, 3, 4, 5, 6, 7]"

definition aug_init :: "mat4 \<Rightarrow> aug48" where
  "aug_init A =
     tab4 (\<lambda>r. map (\<lambda>c. m4 A r c) [0, 1, 2, 3] @
                map (\<lambda>c. if r = c then 1 else 0) [0, 1, 2, 3])"

text \<open>The pivot search of step \<open>k\<close>: the row \<open>piv\<close> in \<open>k..3\<close> with the largest
  \<open>|aug[r][k]|\<close> (the first such row on ties) and that magnitude \<open>amax\<close>.\<close>

definition find_pivot :: "aug48 \<Rightarrow> nat \<Rightarrow> nat \<times> real" where
  "find_pivot aug k =
     foldl (\<lambda>(piv, amax) r.
              let v = \<bar>at4 aug r ! k\<bar> in if v > amax then (r, v) else (piv, amax))
           (k, \<bar>at4 aug k ! k\<bar>) [k + 1 ..< 4]"

definition swap_rows :: "aug48 \<Rightarrow> nat \<Rightarrow> nat \<Rightarrow> aug48" where
  "swap_rows aug i j = upd4 (upd4 aug i (at4 aug j)) j (at4 aug i)"

text \<open>\<^verbatim>\<open>for (c=0;c<8;++c) aug[r][c] -= f * aug[k][c]\<close>, with \<open>f = aug[r][k]\<close> read
  before the loop and skipped when \<open>f == 0\<close>.\<close>

definition row_sub :: "aug48 \<Rightarrow> nat \<Rightarrow> nat \<Rightarrow> aug48" where
  "row_sub aug r k =
     (let f = at4 aug r ! k in
      if f = 0 then aug
      else upd4 aug r (map (\<lambda>c. at4 aug r ! c - f * at4 aug k ! c) cols8))"

definition elim_below :: "aug48 \<Rightarrow> nat \<Rightarrow> aug48" where
  "elim_below aug k = foldl (\<lambda>aug r. row_sub aug r k) aug [k + 1 ..< 4]"

definition elim_above :: "aug48 \<Rightarrow> nat \<Rightarrow> aug48" where
  "elim_above aug k = foldl (\<lambda>aug r. row_sub aug r k) aug [0 ..< k]"

text \<open>The rest of the body of step \<open>k\<close> once the pivot row \<open>piv\<close> is accepted: the row
  swap with its sign change, \<^verbatim>\<open>out_det *= akk\<close>, the scaling of row \<open>k\<close> and the
  elimination below it. The state is \<open>(aug, sign, out_det)\<close>.\<close>

definition pivot_step :: "nat \<Rightarrow> nat \<Rightarrow> aug48 \<times> int \<times> real \<Rightarrow> aug48 \<times> int \<times> real" where
  "pivot_step k piv st =
     (case st of (aug, sign, d) \<Rightarrow>
        let aug1 = (if piv \<noteq> k then swap_rows aug piv k else aug);
            sign1 = (if piv \<noteq> k then - sign else sign);
            akk = at4 aug1 k ! k;
            d1 = d * akk;
            inv_akk = 1 / akk;
            aug2 = upd4 aug1 k (map (\<lambda>c. at4 aug1 k ! c * inv_akk) cols8);
            aug3 = elim_below aug2 k
        in (aug3, sign1, d1))"

text \<open>The forward loop \<^verbatim>\<open>for (k=0;k<4;++k)\<close> over the remaining values of \<open>k\<close>.
  \<open>Inl d\<close> is the early \<^verbatim>\<open>return false\<close>, carrying the value \<open>out_det\<close> holds at that
  moment.\<close>

fun forward_elim :: "real \<Rightarrow> nat list \<Rightarrow> aug48 \<times> int \<times> real \<Rightarrow> real + aug48 \<times> int \<times> real" where
  "forward_elim eps [] st = Inr st"
| "forward_elim eps (k # ks) st =
     (let (piv, amax) = find_pivot (fst st) k in
      if amax < eps then Inl (snd (snd st))
      else forward_elim eps ks (pivot_step k piv st))"

text \<open>\<^verbatim>\<open>bool inverse(const mat4& A, mat4& Ainv, real& out_det, real& out_cond_inf, real eps)\<close>.
  The three reference parameters are passed in and returned:
  the result is \<open>(success, Ainv, out_det, out_cond_inf)\<close>.\<close>

definition inverse4 :: "mat4 \<Rightarrow> mat4 \<Rightarrow> real \<Rightarrow> real \<Rightarrow> real \<Rightarrow> bool \<times> mat4 \<times> real \<times> real" where
  "inverse4 A Ainv out_det out_cond_inf eps =
     (case forward_elim eps [0, 1, 2, 3] (aug_init A, 1, 1) of
        Inl d \<Rightarrow> (False, Ainv, d, out_cond_inf)
      | Inr (aug, sign, d) \<Rightarrow>
          let d' = d * of_int sign;
              aug' = foldl elim_above aug [3, 2, 1, 0];
              Ainv' = tab4 (\<lambda>r. tab4 (\<lambda>c. at4 aug' r ! (4 + c)));
              nA = norm_inf A;
              nInv = norm_inf Ainv'
          in (True, Ainv', d', nA * nInv))"

section \<open>quadform.hpp\<close>

definition qform :: "mat4 \<Rightarrow> vec4 \<Rightarrow> real" where
  "qform g v = acc4 (\<lambda>r. at4 v r * acc4 (\<lambda>c. m4 g r c * at4 v c))"

section \<open>units.hpp and field.hpp\<close>

text \<open>\<^verbatim>\<open>units::Constants\<close> with its default member values (the members \<^verbatim>\<open>c\<close> and
  \<^verbatim>\<open>dtau\<close> are the fields \<open>c_light\<close> and \<open>dtau_default\<close>). The source reads the
  struct through the global accessor \<^verbatim>\<open>units::C()\<close>; the model passes it as a parameter \<open>K\<close>
  to every function that reads it.\<close>

record Constants =
  c_light :: real
  g_eps :: real
  fd_h :: real
  dtau_default :: real

definition C_default :: Constants where
  "C_default =
     \<lparr> c_light = 1, g_eps = 1 / 10 ^ 12, fd_h = 1 / 10 ^ 4, dtau_default = 1 / 2 \<rparr>"

text \<open>\<^verbatim>\<open>IMetricField\<close> is an object with one virtual method \<^verbatim>\<open>g(x)\<close>; \<^verbatim>\<open>IPotential\<close>
  one with \<^verbatim>\<open>V(x)\<close>. A \<^verbatim>\<open>const IPotential*\<close> may be null.\<close>

type_synonym IMetricField = "vec4 \<Rightarrow> mat4"
type_synonym IPotential = "vec4 \<Rightarrow> real"


section \<open>deriv.hpp\<close>

definition dmetric :: "IMetricField \<Rightarrow> vec4 \<Rightarrow> nat \<Rightarrow> real \<Rightarrow> mat4" where
  "dmetric F x a h =
     (let xp = upd4 x a (at4 x a + h);
          xm = upd4 x a (at4 x a - h);
          gp = F xp;
          gm = F xm;
          s = 0.5 / h
      in tab4 (\<lambda>r. tab4 (\<lambda>c. (m4 gp r c - m4 gm r c) * s)))"

definition dmetric4 :: "IMetricField \<Rightarrow> vec4 \<Rightarrow> real \<Rightarrow> mat4 arr4" where
  "dmetric4 F x h = tab4 (\<lambda>a. dmetric F x a h)"

definition gradV :: "IPotential \<Rightarrow> vec4 \<Rightarrow> real \<Rightarrow> vec4" where
  "gradV P x h =
     tab4 (\<lambda>a. let xp = upd4 x a (at4 x a + h);
                    xm = upd4 x a (at4 x a - h);
                    vp = P xp;
                    vm = P xm
                in (vp - vm) * (0.5 / h))"

section \<open>connection.hpp\<close>

type_synonym Gamma = "real arr4 arr4 arr4"

record MetricPack =
  g :: mat4
  g_inv :: mat4
  dg :: "mat4 arr4"
  inv_ok :: bool

definition prepare_metric :: "Constants \<Rightarrow> IMetricField \<Rightarrow> vec4 \<Rightarrow> MetricPack" where
  "prepare_metric K F x =
     (let gx = F x;
          (ok, inv, det, cond) = inverse4 gx mat4_default 0 0 (1 / 10 ^ 14)
      in \<lparr> g = gx, g_inv = inv, dg = dmetric4 F x (fd_h K), inv_ok = ok \<rparr>)"

definition christoffel :: "MetricPack \<Rightarrow> Gamma" where
  "christoffel M =
     tab4 (\<lambda>mu. tab4 (\<lambda>a. tab4 (\<lambda>b.
       0.5 * acc4 (\<lambda>nu.
         m4 (g_inv M) mu nu *
           (m4 (at4 (dg M) a) nu b + m4 (at4 (dg M) b) nu a - m4 (at4 (dg M) nu) a b)))))"

section \<open>curvature.hpp\<close>

type_synonym Riemann = "real arr4 arr4 arr4 arr4"

definition dGamma_dir :: "Constants \<Rightarrow> IMetricField \<Rightarrow> vec4 \<Rightarrow> nat \<Rightarrow> real \<Rightarrow> Gamma" where
  "dGamma_dir K F x a h =
     (let xp = upd4 x a (at4 x a + h);
          xm = upd4 x a (at4 x a - h);
          Pp = prepare_metric K F xp;
          Pm = prepare_metric K F xm;
          Gp = christoffel Pp;
          Gm = christoffel Pm;
          s = 0.5 / h
      in tab4 (\<lambda>mu. tab4 (\<lambda>nu. tab4 (\<lambda>b.
           (at4 (at4 (at4 Gp mu) nu) b - at4 (at4 (at4 Gm mu) nu) b) * s))))"

text \<open>The body of the innermost loop of \<^verbatim>\<open>riemann_at\<close>: the component
  \<open>R[mu][nu][a][b]\<close>, accumulated in the source's order.\<close>

definition riemann_entry :: "Gamma \<Rightarrow> Gamma arr4 \<Rightarrow> nat \<Rightarrow> nat \<Rightarrow> nat \<Rightarrow> nat \<Rightarrow> real" where
  "riemann_entry G dG mu nu a b =
     for4 (\<lambda>sig s.
             s + at4 (at4 (at4 G mu) sig) a * at4 (at4 (at4 G sig) nu) b
               - at4 (at4 (at4 G mu) sig) b * at4 (at4 (at4 G sig) nu) a)
          (at4 (at4 (at4 (at4 dG a) mu) nu) b - at4 (at4 (at4 (at4 dG b) mu) nu) a)"

definition riemann_at :: "Constants \<Rightarrow> IMetricField \<Rightarrow> vec4 \<Rightarrow> Riemann" where
  "riemann_at K F x =
     (let M = prepare_metric K F x;
          G = christoffel M;
          dG = tab4 (\<lambda>a. dGamma_dir K F x a (fd_h K))
      in tab4 (\<lambda>mu. tab4 (\<lambda>nu. tab4 (\<lambda>a. tab4 (\<lambda>b. riemann_entry G dG mu nu a b)))))"

definition ricci :: "Riemann \<Rightarrow> mat4" where
  "ricci R = tab4 (\<lambda>a. tab4 (\<lambda>b. acc4 (\<lambda>mu. at4 (at4 (at4 (at4 R mu) a) mu) b)))"

text \<open>\<^verbatim>\<open>scalar(g_inv, Ric)\<close>: one accumulator over the double loop.\<close>

definition scalar :: "mat4 \<Rightarrow> mat4 \<Rightarrow> real" where
  "scalar gi Ric = for4 (\<lambda>a s. for4 (\<lambda>b s. s + m4 gi a b * m4 Ric a b) s) 0"

section \<open>physics/einstein\_fit.hpp\<close>

definition to_sym4 :: "mat4 \<Rightarrow> mat4" where
  "to_sym4 A = tab4 (\<lambda>i. tab4 (\<lambda>j. 0.5 * (m4 A i j + m4 A j i)))"

definition einstein_at :: "Constants \<Rightarrow> IMetricField \<Rightarrow> vec4 \<Rightarrow> mat4" where
  "einstein_at K F x =
     (let Rm = riemann_at K F x;
          Rc = ricci Rm;
          gx = F x;
          R = scalar (g_inv (prepare_metric K F x)) Rc
      in tab4 (\<lambda>i. tab4 (\<lambda>j. m4 Rc i j - 0.5 * m4 gx i j * R)))"

section \<open>integrators.hpp\<close>

definition accel :: "Constants \<Rightarrow> MetricPack \<Rightarrow> Gamma \<Rightarrow> vec4 \<Rightarrow> IPotential option \<Rightarrow> vec4 \<Rightarrow> vec4" where
  "accel K M G u P x =
     (let a = tab4 (\<lambda>mu.
                - for4 (\<lambda>a' s. for4 (\<lambda>b s. s + at4 (at4 (at4 G mu) a') b * at4 u a' * at4 u b) s) 0)
      in case P of
           None \<Rightarrow> a
         | Some V \<Rightarrow>
             let gV = gradV V x (fd_h K)
             in for4 (\<lambda>mu a. upd4 a mu (at4 a mu + - acc4 (\<lambda>nu. m4 (g_inv M) mu nu * at4 gV nu))) a)"

definition renormalize_timelike :: "mat4 \<Rightarrow> vec4 \<Rightarrow> vec4" where
  "renormalize_timelike gm u =
     (let s = qform gm u in
      if s \<ge> 0 then u
      else let k = 1 / sqrt (- s) in for4 (\<lambda>i u. upd4 u i (at4 u i * k)) u)"

text \<open>\<^verbatim>\<open>geodesic_step\<close> updates \<open>x\<close> and \<open>u\<close> in place; the model returns the pair.\<close>

definition geodesic_step ::
    "Constants \<Rightarrow> IMetricField \<Rightarrow> IPotential option \<Rightarrow> vec4 \<Rightarrow> vec4 \<Rightarrow> real \<Rightarrow> vec4 \<times> vec4" where
  "geodesic_step K F P x u dtau =
     (let M = prepare_metric K F x;
          G = christoffel M;
          a0 = accel K M G u P x;
          uh = for4 (\<lambda>i uh. upd4 uh i (at4 uh i + 0.5 * dtau * at4 a0 i)) u;
          x1 = for4 (\<lambda>i x. upd4 x i (at4 x i + dtau * at4 uh i)) x;
          M1 = prepare_metric K F x1;
          G1 = christoffel M1;
          a1 = accel K M1 G1 uh P x1;
          u1 = for4 (\<lambda>i u. upd4 u i (at4 uh i + 0.5 * dtau * at4 a1 i)) u
      in (x1, renormalize_timelike (g M1) u1))"

definition rk4_geodesic ::
    "Constants \<Rightarrow> IMetricField \<Rightarrow> vec4 \<Rightarrow> vec4 \<Rightarrow> real \<Rightarrow> IPotential option \<Rightarrow> vec4 \<times> vec4" where
  "rk4_geodesic K F x u dtau P = geodesic_step K F P x u dtau"

section \<open>audits/pd\_proxy.hpp\<close>







record PDReport =
  ok :: bool
  min_diagL :: real
  max_diagL :: real


section \<open>Auxiliary notions used in the proofs\<close>

text \<open>The connection whose 64 coefficients are all zero.\<close>

definition Gamma_zero :: Gamma where
  "Gamma_zero = tab4 (\<lambda>mu. mat4_default)"

text \<open>A metric field that is linear in the first two coordinates, diagonal (hence
  symmetric) and of Lorentzian signature near the origin; and the shape the connection takes
  for it, with \<open>w\<close> the inverse of the second diagonal entry.\<close>

definition linear_field :: IMetricField where
  "linear_field x = from_diag (- 1) (1 / 100 + at4 x 0 + 2 * at4 x 1) 1 1"

definition lin_Gamma :: "real \<Rightarrow> Gamma" where
  "lin_Gamma w =
     Arr4 (Arr4 (Arr4 0 0 0 0) (Arr4 0 (1 / 2) 0 0) (Arr4 0 0 0 0) (Arr4 0 0 0 0))
          (Arr4 (Arr4 0 (w / 2) 0 0) (Arr4 (w / 2) w 0 0) (Arr4 0 0 0 0) (Arr4 0 0 0 0))
          mat4_default mat4_default"

section \<open>Basic facts about arrays and loops\<close>

lemma lt4_cases: "i < 4 \<Longrightarrow> i = 0 \<or> i = 1 \<or> i = 2 \<or> i = (3::nat)"
  by arith

lemma all_lt4: "(\<forall>i<4. P i) \<longleftrightarrow> P 0 \<and> P 1 \<and> P 2 \<and> P (3::nat)"
  by (auto dest!: lt4_cases)

lemma at4_tab4 [simp]: "i < 4 \<Longrightarrow> at4 (tab4 f) i = f i"
  by (auto simp: tab4_def dest!: lt4_cases)

lemma tab4_at4 [simp]: "tab4 (at4 v) = v"
  by (cases v) (simp add: tab4_def)

lemma for4_unfold: "for4 body s = body 3 (body 2 (body 1 (body 0 s)))"
  by (simp add: for4_def)

lemma acc4_unfold: "acc4 f = f 0 + f 1 + f 2 + f 3"
  by (simp add: acc4_def for4_unfold)




lemma arr4_eqI:
  assumes "\<And>i. i < 4 \<Longrightarrow> at4 v i = at4 w i"
  shows "v = w"
proof -
  obtain a b c d where v: "v = Arr4 a b c d" by (cases v)
  obtain a' b' c' d' where w: "w = Arr4 a' b' c' d'" by (cases w)
  from assms[of 0] assms[of 1] assms[of 2] assms[of 3] show ?thesis by (simp add: v w)
qed

lemma at4_upd4: "i < 4 \<Longrightarrow> j < 4 \<Longrightarrow> at4 (upd4 a i v) j = (if i = j then v else at4 a j)"
  by (cases a) (auto dest!: lt4_cases)

lemma upt4_simps:
  "[1 ..< 4] = [1, 2, 3::nat]" "[2 ..< 4] = [2, 3::nat]" "[3 ..< 4] = [3::nat]"
  "[0 ..< 1] = [0::nat]" "[0 ..< 2] = [0, 1::nat]" "[0 ..< 3] = [0, 1, 2::nat]"
  "[0 ..< 4] = [0, 1, 2, 3::nat]" "[Suc 0 ..< 4] = [1, 2, 3::nat]"
  by code_simp+

lemma transpose4_sym:
  assumes "transpose4 A = A" and "r < 4" and "c < 4"
  shows "m4 A r c = m4 A c r"
proof -
  have "m4 (transpose4 A) r c = m4 A c r"
    using assms(2,3) by (simp add: transpose4_def)
  then show ?thesis by (simp add: assms(1))
qed

lemma transpose4_symI:
  "(\<And>r c. r < 4 \<Longrightarrow> c < 4 \<Longrightarrow> m4 A r c = m4 A c r) \<Longrightarrow> transpose4 A = A"
  by (rule arr4_eqI, rule arr4_eqI) (simp add: transpose4_def)

section \<open>The geodesic integrator\<close>




lemma g_prepare_metric [simp]: "g (prepare_metric K F x) = F x"
  by (simp add: prepare_metric_def Let_def split: prod.splits)

lemma dg_prepare_metric [simp]: "dg (prepare_metric K F x) = dmetric4 F x (fd_h K)"
  by (simp add: prepare_metric_def Let_def split: prod.splits)

lemma inv_ok_prepare_metric:
  "inv_ok (prepare_metric K F x) = fst (inverse4 (F x) mat4_default 0 0 (1 / 10 ^ 14))"
  by (simp add: prepare_metric_def Let_def split: prod.splits)

lemma g_inv_prepare_metric:
  "g_inv (prepare_metric K F x) = fst (snd (inverse4 (F x) mat4_default 0 0 (1 / 10 ^ 14)))"
  by (simp add: prepare_metric_def Let_def split: prod.splits)







section \<open>Claims about the geodesic integrator\<close>

text \<open>
  Claim C9. The entry point \<^verbatim>\<open>rk4_geodesic(F, x, u, dtau, P)\<close> updates the state
  \<open>(x, u)\<close> to exactly what \<^verbatim>\<open>geodesic_step(F, P, x, u, dtau)\<close> produces, for every
  field, optional potential, state and step: the two are the same integrator.
\<close>

theorem rk4_geodesic_is_geodesic_step:
  "rk4_geodesic K F x u dtau P = geodesic_step K F P x u dtau"
  by (simp add: rk4_geodesic_def)




section \<open>Claims about the connection and the curvature\<close>

lemma dmetric_symmetric:
  assumes "\<And>y. transpose4 (F y) = F y"
  shows "transpose4 (dmetric F x a h) = dmetric F x a h"
  by (rule transpose4_symI) (simp add: dmetric_def Let_def transpose4_sym[OF assms])

text \<open>
  Claim C5. For every \<^verbatim>\<open>MetricPack\<close> whose four partial-derivative matrices are
  symmetric (equal to their transposes), the coefficients returned by \<^verbatim>\<open>christoffel\<close>
  are symmetric in the lower index pair: \<open>G[mu][a][b] = G[mu][b][a]\<close> for all indices
  in 0..3.
\<close>

theorem christoffel_symmetric:
  assumes "\<forall>a<4. transpose4 (at4 (dg M) a) = at4 (dg M) a"
  shows "\<forall>mu<4. \<forall>a<4. \<forall>b<4.
           at4 (at4 (at4 (christoffel M) mu) a) b = at4 (at4 (at4 (christoffel M) mu) b) a"
proof (intro allI impI)
  fix mu a b :: nat
  assume mu: "mu < 4" and a: "a < 4" and b: "b < 4"
  have sym: "m4 (at4 (dg M) nu) a b = m4 (at4 (dg M) nu) b a" if "nu < 4" for nu
    using assms that a b by (simp add: transpose4_sym)
  show "at4 (at4 (at4 (christoffel M) mu) a) b = at4 (at4 (at4 (christoffel M) mu) b) a"
    using mu a b by (simp add: christoffel_def acc4_unfold sym add.commute)
qed

theorem christoffel_symmetric_witness:
  "(let M = \<lparr> g = minkowski_eta, g_inv = minkowski_eta,
               dg = Arr4 (from_diag 0 1 0 0) (from_diag 0 2 0 0) mat4_default mat4_default,
               inv_ok = True \<rparr>
    in transpose4 (at4 (dg M) 0) = at4 (dg M) 0 \<and> transpose4 (at4 (dg M) 1) = at4 (dg M) 1 \<and>
       transpose4 (at4 (dg M) 2) = at4 (dg M) 2 \<and> transpose4 (at4 (dg M) 3) = at4 (dg M) 3 \<and>
       at4 (at4 (at4 (christoffel M) 1) 0) 1 = at4 (at4 (at4 (christoffel M) 1) 1) 0)"
proof -
  let ?M = "\<lparr> g = minkowski_eta, g_inv = minkowski_eta,
               dg = Arr4 (from_diag 0 1 0 0) (from_diag 0 2 0 0) mat4_default mat4_default,
               inv_ok = True \<rparr>"
  have h: "\<forall>a<4. transpose4 (at4 (dg ?M) a) = at4 (dg ?M) a"
    by (simp add: all_lt4 transpose4_def tab4_def from_diag_def mat4_default_def vec4_default_def)
  have "at4 (at4 (at4 (christoffel ?M) 1) 0) 1 = at4 (at4 (at4 (christoffel ?M) 1) 1) 0"
    using christoffel_symmetric[OF h, rule_format, of 1 0 1] by simp
  with h show ?thesis
    unfolding Let_def all_lt4 by blast
qed



section \<open>The Einstein tensor\<close>

lemma dmetric4_linear_field:
  assumes "h \<noteq> 0"
  shows "dmetric4 linear_field y h =
           Arr4 (from_diag 0 1 0 0) (from_diag 0 2 0 0) mat4_default mat4_default"
proof -
  obtain y0 y1 y2 y3 where y: "y = Arr4 y0 y1 y2 y3" by (cases y)
  show ?thesis
    using assms
    by (simp add: y dmetric4_def dmetric_def linear_field_def from_diag_def tab4_def Let_def
        mat4_default_def vec4_default_def field_simps)
qed

lemma christoffel_lin:
  assumes "g_inv M = from_diag (- 1) w 1 1"
    and "dg M = Arr4 (from_diag 0 1 0 0) (from_diag 0 2 0 0) mat4_default mat4_default"
  shows "christoffel M = lin_Gamma w"
  by (simp add: christoffel_def assms acc4_unfold tab4_def from_diag_def lin_Gamma_def
      mat4_default_def vec4_default_def)

lemma christoffel_linear_field:
  assumes "linear_field y = from_diag (- 1) f 1 1"
    and "fst (snd (inverse4 (from_diag (- 1) f 1 1) mat4_default 0 0 (1 / 10 ^ 14))) =
           from_diag (- 1) w 1 1"
  shows "christoffel (prepare_metric C_default linear_field y) = lin_Gamma w"
proof (rule christoffel_lin)
  show "g_inv (prepare_metric C_default linear_field y) = from_diag (- 1) w 1 1"
    by (simp only: g_inv_prepare_metric assms)
  show "dg (prepare_metric C_default linear_field y) =
          Arr4 (from_diag 0 1 0 0) (from_diag 0 2 0 0) mat4_default mat4_default"
    by (simp add: dmetric4_linear_field C_default_def)
qed

lemma christoffel_linear_field_values:
  "christoffel (prepare_metric C_default linear_field (Arr4 0 0 0 0)) = lin_Gamma 100"
  "christoffel (prepare_metric C_default linear_field (Arr4 (1 / 10000) 0 0 0)) =
     lin_Gamma (10000 / 101)"
  "christoffel (prepare_metric C_default linear_field (Arr4 (- (1 / 10000)) 0 0 0)) =
     lin_Gamma (10000 / 99)"
  "christoffel (prepare_metric C_default linear_field (Arr4 0 (1 / 10000) 0 0)) =
     lin_Gamma (10000 / 102)"
  "christoffel (prepare_metric C_default linear_field (Arr4 0 (- (1 / 10000)) 0 0)) =
     lin_Gamma (10000 / 98)"
  "christoffel (prepare_metric C_default linear_field (Arr4 0 0 (1 / 10000) 0)) = lin_Gamma 100"
  "christoffel (prepare_metric C_default linear_field (Arr4 0 0 (- (1 / 10000)) 0)) = lin_Gamma 100"
  "christoffel (prepare_metric C_default linear_field (Arr4 0 0 0 (1 / 10000))) = lin_Gamma 100"
  "christoffel (prepare_metric C_default linear_field (Arr4 0 0 0 (- (1 / 10000)))) = lin_Gamma 100"
proof -
  have i0: "fst (snd (inverse4 (from_diag (- 1) (1 / 100) 1 1) mat4_default 0 0 (1 / 10 ^ 14))) =
     from_diag (- 1) 100 1 1"
    by code_simp
  have i1: "fst (snd (inverse4 (from_diag (- 1) (101 / 10000) 1 1) mat4_default 0 0 (1 / 10 ^ 14))) =
     from_diag (- 1) (10000 / 101) 1 1"
    by code_simp
  have i2: "fst (snd (inverse4 (from_diag (- 1) (99 / 10000) 1 1) mat4_default 0 0 (1 / 10 ^ 14))) =
     from_diag (- 1) (10000 / 99) 1 1"
    by code_simp
  have i3: "fst (snd (inverse4 (from_diag (- 1) (102 / 10000) 1 1) mat4_default 0 0 (1 / 10 ^ 14))) =
     from_diag (- 1) (10000 / 102) 1 1"
    by code_simp
  have i4: "fst (snd (inverse4 (from_diag (- 1) (98 / 10000) 1 1) mat4_default 0 0 (1 / 10 ^ 14))) =
     from_diag (- 1) (10000 / 98) 1 1"
    by code_simp
  show "christoffel (prepare_metric C_default linear_field (Arr4 0 0 0 0)) = lin_Gamma 100"
    by (rule christoffel_linear_field[OF _ i0]) (simp add: linear_field_def)
  show "christoffel (prepare_metric C_default linear_field (Arr4 (1 / 10000) 0 0 0)) =
     lin_Gamma (10000 / 101)"
    by (rule christoffel_linear_field[OF _ i1]) (simp add: linear_field_def)
  show "christoffel (prepare_metric C_default linear_field (Arr4 (- (1 / 10000)) 0 0 0)) =
     lin_Gamma (10000 / 99)"
    by (rule christoffel_linear_field[OF _ i2]) (simp add: linear_field_def)
  show "christoffel (prepare_metric C_default linear_field (Arr4 0 (1 / 10000) 0 0)) =
     lin_Gamma (10000 / 102)"
    by (rule christoffel_linear_field[OF _ i3]) (simp add: linear_field_def)
  show "christoffel (prepare_metric C_default linear_field (Arr4 0 (- (1 / 10000)) 0 0)) =
     lin_Gamma (10000 / 98)"
    by (rule christoffel_linear_field[OF _ i4]) (simp add: linear_field_def)
  show "christoffel (prepare_metric C_default linear_field (Arr4 0 0 (1 / 10000) 0)) = lin_Gamma 100"
    by (rule christoffel_linear_field[OF _ i0]) (simp add: linear_field_def)
  show "christoffel (prepare_metric C_default linear_field (Arr4 0 0 (- (1 / 10000)) 0)) = lin_Gamma 100"
    by (rule christoffel_linear_field[OF _ i0]) (simp add: linear_field_def)
  show "christoffel (prepare_metric C_default linear_field (Arr4 0 0 0 (1 / 10000))) = lin_Gamma 100"
    by (rule christoffel_linear_field[OF _ i0]) (simp add: linear_field_def)
  show "christoffel (prepare_metric C_default linear_field (Arr4 0 0 0 (- (1 / 10000)))) = lin_Gamma 100"
    by (rule christoffel_linear_field[OF _ i0]) (simp add: linear_field_def)
qed

lemma dGamma_linear_field:
  "tab4 (\<lambda>a. dGamma_dir C_default linear_field (Arr4 0 0 0 0) a (fd_h C_default)) =
     Arr4 (Arr4 mat4_default
             (Arr4 (Arr4 0 (- (50000000 / 9999)) 0 0)
                   (Arr4 (- (50000000 / 9999)) (- (100000000 / 9999)) 0 0)
                   (Arr4 0 0 0 0) (Arr4 0 0 0 0))
             mat4_default mat4_default)
          (Arr4 mat4_default
             (Arr4 (Arr4 0 (- (25000000 / 2499)) 0 0)
                   (Arr4 (- (25000000 / 2499)) (- (50000000 / 2499)) 0 0)
                   (Arr4 0 0 0 0) (Arr4 0 0 0 0))
             mat4_default mat4_default)
          Gamma_zero Gamma_zero"
proof -
  have h: "fd_h C_default = 1 / 10000"
    by (simp add: C_default_def)
  show ?thesis
    by (simp add: tab4_def dGamma_dir_def Let_def h christoffel_linear_field_values
        lin_Gamma_def mat4_default_def vec4_default_def Gamma_zero_def)
qed

lemma linear_field_symmetric: "transpose4 (linear_field y) = linear_field y"
  by (simp add: linear_field_def transpose4_def from_diag_def tab4_def)

text \<open>
  Claim C1. The claim is that the tensor returned by \<^verbatim>\<open>einstein_at(F, x)\<close> is symmetric for
  every field and point. The code writes \<open>Ricci[i][j] - g[i][j] * R / 2\<close> into the result
  without symmetrising it, and the Ricci tensor assembled from finite differences of the
  connection is not symmetric: for the symmetric field \<open>linear_field\<close>, at the origin and
  with the default constants, component \<open>(0, 1)\<close> is \<open>0\<close> while component \<open>(1, 0)\<close> is
  \<open>- 25000000 / 8329167\<close>.
\<close>

theorem einstein_at_not_symmetric:
  "m4 (einstein_at C_default linear_field (Arr4 0 0 0 0)) 0 1 = 0 \<and>
   m4 (einstein_at C_default linear_field (Arr4 0 0 0 0)) 1 0 = - (25000000 / 8329167) \<and>
   transpose4 (einstein_at C_default linear_field (Arr4 0 0 0 0)) \<noteq>
     einstein_at C_default linear_field (Arr4 0 0 0 0)"
proof -
  let ?x = "Arr4 0 0 0 (0::real)"
  have g: "linear_field ?x = from_diag (- 1) (1 / 100) 1 1"
    by (simp add: linear_field_def)
  have R01: "m4 (ricci (riemann_at C_default linear_field ?x)) 0 1 = 0"
    by (simp add: ricci_def riemann_at_def Let_def acc4_unfold riemann_entry_def for4_unfold
        dGamma_linear_field christoffel_linear_field_values lin_Gamma_def mat4_default_def
        vec4_default_def Gamma_zero_def)
  have R10: "m4 (ricci (riemann_at C_default linear_field ?x)) 1 0 = - (25000000 / 8329167)"
    by (simp add: ricci_def riemann_at_def Let_def acc4_unfold riemann_entry_def for4_unfold
        dGamma_linear_field christoffel_linear_field_values lin_Gamma_def mat4_default_def
        vec4_default_def Gamma_zero_def)
  have E: "m4 (einstein_at C_default linear_field ?x) 0 1 = 0 \<and>
           m4 (einstein_at C_default linear_field ?x) 1 0 = - (25000000 / 8329167)"
    using R01 R10 by (simp add: einstein_at_def Let_def g from_diag_def)
  have "transpose4 (einstein_at C_default linear_field ?x) \<noteq> einstein_at C_default linear_field ?x"
  proof
    assume "transpose4 (einstein_at C_default linear_field ?x) = einstein_at C_default linear_field ?x"
    then have "m4 (einstein_at C_default linear_field ?x) 0 1 =
               m4 (einstein_at C_default linear_field ?x) 1 0"
      by (rule transpose4_sym) simp_all
    with E have "(0::real) = - (25000000 / 8329167)"
      by (elim conjE) (simp only:)
    then show False by simp
  qed
  with E show ?thesis by blast
qed

section \<open>Claims about matrix inversion\<close>

lemma pivot_scan:
  fixes aug :: aug48
  assumes "foldl (\<lambda>(piv, amax) r.
              let v = \<bar>at4 aug r ! k\<bar> in if v > amax then (r, v) else (piv, amax))
             (piv0, amax0) rs = (piv, amax)"
    and "amax0 = \<bar>at4 aug piv0 ! k\<bar>"
  shows "amax = \<bar>at4 aug piv ! k\<bar> \<and> (piv = piv0 \<or> piv \<in> set rs) \<and> amax0 \<le> amax \<and>
         (\<forall>r\<in>set rs. \<bar>at4 aug r ! k\<bar> \<le> amax)"
  using assms
proof (induction rs arbitrary: piv0 amax0)
  case Nil
  then show ?case by auto
next
  case (Cons r rs)
  show ?case
  proof (cases "\<bar>at4 aug r ! k\<bar> > amax0")
    case True
    with Cons.prems(1) have "foldl (\<lambda>(piv, amax) r.
              let v = \<bar>at4 aug r ! k\<bar> in if v > amax then (r, v) else (piv, amax))
             (r, \<bar>at4 aug r ! k\<bar>) rs = (piv, amax)"
      by (simp add: Let_def)
    from Cons.IH[OF this refl] True show ?thesis by auto
  next
    case False
    with Cons.prems(1) have "foldl (\<lambda>(piv, amax) r.
              let v = \<bar>at4 aug r ! k\<bar> in if v > amax then (r, v) else (piv, amax))
             (piv0, amax0) rs = (piv, amax)"
      by (simp add: Let_def)
    from Cons.IH[OF this Cons.prems(2)] False show ?thesis by auto
  qed
qed

lemma find_pivot_props:
  assumes "k < 4" and "find_pivot aug k = (piv, amax)"
  shows "k \<le> piv \<and> piv < 4 \<and> amax = \<bar>at4 aug piv ! k\<bar> \<and>
         (\<forall>r. k \<le> r \<and> r < 4 \<longrightarrow> \<bar>at4 aug r ! k\<bar> \<le> amax)"
proof -
  note P = pivot_scan[OF assms(2)[unfolded find_pivot_def] refl]
  have "\<bar>at4 aug r ! k\<bar> \<le> amax" if "k \<le> r" "r < 4" for r
  proof (cases "r = k")
    case True
    with P show ?thesis by simp
  next
    case False
    with that have "r \<in> set [k + 1 ..< 4]" by simp
    with P show ?thesis by blast
  qed
  moreover have "k \<le> piv \<and> piv < 4"
    using P assms(1) by auto
  ultimately show ?thesis using P by blast
qed

lemma row_sub_keeps_zero_row:
  assumes "p < 4" "k < 4" "r < 4" "\<forall>c<4. at4 aug p ! c = 0"
  shows "at4 (row_sub aug r k) p = at4 aug p"
  using assms by (simp add: row_sub_def Let_def at4_upd4)

lemma foldl_row_sub_keeps_zero_row:
  assumes "p < 4" "k < 4" "\<forall>r\<in>set rs. r < 4" "\<forall>c<4. at4 aug p ! c = 0"
  shows "at4 (foldl (\<lambda>aug r. row_sub aug r k) aug rs) p = at4 aug p"
  using assms(3,4)
proof (induction rs arbitrary: aug)
  case Nil
  show ?case by simp
next
  case (Cons r rs)
  have 1: "at4 (row_sub aug r k) p = at4 aug p"
    using Cons.prems assms(1,2) by (simp add: row_sub_keeps_zero_row)
  have "at4 (foldl (\<lambda>aug r. row_sub aug r k) (row_sub aug r k) rs) p = at4 (row_sub aug r k) p"
    using Cons.prems by (intro Cons.IH) (simp_all add: 1)
  then show ?case by (simp add: 1)
qed

lemma elim_below_keeps_zero_row:
  assumes "p < 4" "k < 4" "\<forall>c<4. at4 aug p ! c = 0"
  shows "at4 (elim_below aug k) p = at4 aug p"
  unfolding elim_below_def
  using assms by (intro foldl_row_sub_keeps_zero_row) simp_all

lemma forward_elim_Cons:
  "forward_elim eps (k # ks) st =
     (if snd (find_pivot (fst st) k) < eps then Inl (snd (snd st))
      else forward_elim eps ks (pivot_step k (fst (find_pivot (fst st) k)) st))"
  by (cases "find_pivot (fst st) k") simp

lemma forward_elim_step_zero_row:
  assumes k: "k < 4" and p: "k \<le> p" "p < 4" and z: "\<forall>c<4. at4 aug p ! c = 0" and eps: "0 < eps"
  shows "isl (forward_elim eps (k # ks) (aug, sign, d)) \<or>
         (\<exists>aug' sign' d' p'. forward_elim eps (k # ks) (aug, sign, d) =
                                forward_elim eps ks (aug', sign', d') \<and>
              k < p' \<and> p' < 4 \<and> (\<forall>c<4. at4 aug' p' ! c = 0))"
proof -
  obtain piv amax where fp: "find_pivot aug k = (piv, amax)"
    by (cases "find_pivot aug k")
  note P = find_pivot_props[OF k fp]
  show ?thesis
  proof (cases "amax < eps")
    case True
    then show ?thesis by (simp add: forward_elim_Cons fp del: forward_elim.simps(2))
  next
    case False
    with eps have pos: "0 < amax" by simp
    have zk: "at4 aug p ! k = 0" using z k by simp
    with P pos have ne: "piv \<noteq> p" by auto
    define aug1 where "aug1 = (if piv \<noteq> k then swap_rows aug piv k else aug)"
    define p' where "p' = (if p = k then piv else p)"
    have p'k: "k < p'" and p'4: "p' < 4"
      using p P ne by (auto simp: p'_def)
    have 1: "at4 aug1 p' = at4 aug p"
      using p P ne k by (auto simp: aug1_def p'_def swap_rows_def at4_upd4)
    define aug2 where "aug2 = upd4 aug1 k (map (\<lambda>c. at4 aug1 k ! c * (1 / (at4 aug1 k ! k))) cols8)"
    have 2: "at4 aug2 p' = at4 aug p"
      using p'k p'4 k by (simp add: aug2_def at4_upd4 1)
    have 3: "at4 (elim_below aug2 k) p' = at4 aug p"
      using elim_below_keeps_zero_row[of p' k aug2] p'4 k z by (simp add: 2)
    have z3: "\<forall>c<4. at4 (elim_below aug2 k) p' ! c = 0"
      using 3 z by simp
    have "pivot_step k piv (aug, sign, d) =
            (elim_below aug2 k, (if piv \<noteq> k then - sign else sign), d * (at4 aug1 k ! k))"
      by (simp add: pivot_step_def Let_def aug1_def aug2_def)
    with False have "forward_elim eps (k # ks) (aug, sign, d) =
            forward_elim eps ks (elim_below aug2 k, (if piv \<noteq> k then - sign else sign),
              d * (at4 aug1 k ! k))"
      by (simp add: forward_elim_Cons fp del: forward_elim.simps(2))
    with p'k p'4 z3 show ?thesis by blast
  qed
qed

lemma forward_elim_zero_row_chain:
  assumes k: "k < 4" "k \<le> q" "q < 4" and z: "\<forall>c<4. at4 a q ! c = 0" and eps: "0 < eps"
    and nxt: "\<And>a' s' e' q'. Suc k \<le> q' \<Longrightarrow> q' < 4 \<Longrightarrow> \<forall>c<4. at4 a' q' ! c = 0 \<Longrightarrow>
                 isl (forward_elim eps ks (a', s', e'))"
  shows "isl (forward_elim eps (k # ks) (a, s, e))"
proof -
  from forward_elim_step_zero_row[OF k z eps, of ks s e]
  consider "isl (forward_elim eps (k # ks) (a, s, e))"
    | a' s' e' q' where "forward_elim eps (k # ks) (a, s, e) = forward_elim eps ks (a', s', e')"
        "k < q'" "q' < 4" "\<forall>c<4. at4 a' q' ! c = 0"
    by blast
  then show ?thesis
  proof cases
    case 1
    then show ?thesis .
  next
    case 2
    from nxt[of q' a' s' e'] 2 show ?thesis by (simp only: Suc_leI)
  qed
qed

lemma forward_elim_zero_row:
  assumes "p < 4" and "\<forall>c<4. at4 aug p ! c = 0" and "0 < eps"
  shows "isl (forward_elim eps [0, 1, 2, 3] (aug, sign, d))"
proof -
  have s4: "isl (forward_elim eps [] (a, s, e))"
    if "Suc 3 \<le> q" "q < 4" "\<forall>c<4. at4 a q ! c = 0" for a s e q
    using that by simp
  have s3: "isl (forward_elim eps [3] (a, s, e))"
    if "Suc 2 \<le> q" "q < 4" "\<forall>c<4. at4 a q ! c = 0" for a s e q
    by (rule forward_elim_zero_row_chain[of 3 q, OF _ _ _ _ _ s4]) (use that assms(3) in simp_all)
  have s2: "isl (forward_elim eps [2, 3] (a, s, e))"
    if "Suc 1 \<le> q" "q < 4" "\<forall>c<4. at4 a q ! c = 0" for a s e q
    by (rule forward_elim_zero_row_chain[of 2 q, OF _ _ _ _ _ s3]) (use that assms(3) in simp_all)
  have s1: "isl (forward_elim eps [1, 2, 3] (a, s, e))"
    if "Suc 0 \<le> q" "q < 4" "\<forall>c<4. at4 a q ! c = 0" for a s e q
    by (rule forward_elim_zero_row_chain[of 1 q, OF _ _ _ _ _ s2]) (use that assms(3) in simp_all)
  show ?thesis
    by (rule forward_elim_zero_row_chain[of 0 p, OF _ _ _ _ _ s1]) (use assms in simp_all)
qed


lemma aug_init_left: "r < 4 \<Longrightarrow> c < 4 \<Longrightarrow> at4 (aug_init A) r ! c = m4 A r c"
  using lt4_cases[of r] lt4_cases[of c] by (auto simp: aug_init_def)

lemma forward_elim_append:
  "forward_elim eps (ks @ ks') st =
     (case forward_elim eps ks st of Inl d \<Rightarrow> Inl d | Inr st' \<Rightarrow> forward_elim eps ks' st')"
  by (induction ks arbitrary: st) (simp_all add: forward_elim_Cons del: forward_elim.simps(2))

lemma forward_elim_small_pivot:
  "snd (find_pivot aug k) < eps \<Longrightarrow> forward_elim eps (k # ks) (aug, sign, d) = Inl d"
  by (simp add: forward_elim_Cons del: forward_elim.simps(2))

lemma steps_split: "k < 4 \<Longrightarrow> [0, 1, 2, 3] = [0 ..< k] @ k # [Suc k ..< 4]"
  using upt_conv_Cons[of k 4] upt_add_eq_append[of 0 k "4 - k"] by (simp add: upt4_simps)

lemma inverse4_isl:
  assumes "isl (forward_elim eps [0, 1, 2, 3] (aug_init A, 1, 1))"
  shows "\<not> fst (inverse4 A Ainv od oc eps) \<and> fst (snd (inverse4 A Ainv od oc eps)) = Ainv"
  using assms by (auto simp: inverse4_def isl_def)

text \<open>
  Claim C7. For every matrix \<open>A\<close> with a row of zeros, \<^verbatim>\<open>inverse\<close> returns false at the
  default tolerance \<open>1e-14\<close> and leaves its output matrix as it was; and, for any
  tolerance, \<^verbatim>\<open>inverse\<close> returns false whenever the forward elimination reaches a step
  \<open>k\<close> at which the largest pivot magnitude available in column \<open>k\<close> is below the
  tolerance.
\<close>

theorem inverse_reports_failure:
  "((\<exists>r<4. \<forall>c<4. m4 A r c = 0) \<longrightarrow>
      \<not> fst (inverse4 A Ainv od oc (1 / 10 ^ 14)) \<and>
      fst (snd (inverse4 A Ainv od oc (1 / 10 ^ 14))) = Ainv) \<and>
   (k < 4 \<and> forward_elim eps [0 ..< k] (aug_init A, 1, 1) = Inr (aug, sign, d) \<and>
      snd (find_pivot aug k) < eps \<longrightarrow>
      \<not> fst (inverse4 A Ainv od oc eps) \<and> fst (snd (inverse4 A Ainv od oc eps)) = Ainv)"
proof (intro conjI impI)
  assume "\<exists>r<4. \<forall>c<4. m4 A r c = 0"
  then obtain r where r: "r < 4" "\<forall>c<4. m4 A r c = 0" by blast
  then have "\<forall>c<4. at4 (aug_init A) r ! c = 0"
    by (simp add: aug_init_left)
  from forward_elim_zero_row[OF r(1) this, of "1 / 10 ^ 14" 1 1]
  have "isl (forward_elim (1 / 10 ^ 14) [0, 1, 2, 3] (aug_init A, 1, 1))"
    by simp
  from inverse4_isl[OF this]
  show "\<not> fst (inverse4 A Ainv od oc (1 / 10 ^ 14))"
    and "fst (snd (inverse4 A Ainv od oc (1 / 10 ^ 14))) = Ainv"
    by blast+
next
  assume h: "k < 4 \<and> forward_elim eps [0 ..< k] (aug_init A, 1, 1) = Inr (aug, sign, d) \<and>
      snd (find_pivot aug k) < eps"
  then have "forward_elim eps [0, 1, 2, 3] (aug_init A, 1, 1) = Inl d"
    by (simp only: steps_split[of k] forward_elim_append forward_elim_small_pivot sum.case
        prod.case)
  then have "isl (forward_elim eps [0, 1, 2, 3] (aug_init A, 1, 1))"
    by simp
  from inverse4_isl[OF this]
  show "\<not> fst (inverse4 A Ainv od oc eps)" and "fst (snd (inverse4 A Ainv od oc eps)) = Ainv"
    by blast+
qed

theorem inverse_reports_failure_witness:
  "(2::nat) < 4 \<and> m4 (Arr4 (Arr4 1 2 0 1) (Arr4 3 1 1 0) (Arr4 0 0 0 0) (Arr4 1 0 2 5)) 2 0 = 0 \<and>
   m4 (Arr4 (Arr4 1 2 0 1) (Arr4 3 1 1 0) (Arr4 0 0 0 0) (Arr4 1 0 2 5)) 2 1 = 0 \<and>
   m4 (Arr4 (Arr4 1 2 0 1) (Arr4 3 1 1 0) (Arr4 0 0 0 0) (Arr4 1 0 2 5)) 2 2 = 0 \<and>
   m4 (Arr4 (Arr4 1 2 0 1) (Arr4 3 1 1 0) (Arr4 0 0 0 0) (Arr4 1 0 2 5)) 2 3 = 0 \<and>
   \<not> fst (inverse4 (Arr4 (Arr4 1 2 0 1) (Arr4 3 1 1 0) (Arr4 0 0 0 0) (Arr4 1 0 2 5))
            identity 0 0 (1 / 10 ^ 14)) \<and>
   fst (snd (inverse4 (Arr4 (Arr4 1 2 0 1) (Arr4 3 1 1 0) (Arr4 0 0 0 0) (Arr4 1 0 2 5))
            identity 0 0 (1 / 10 ^ 14))) = identity \<and>
   (1::nat) < 4 \<and>
   forward_elim (1 / 2) [0 ..< 1] (aug_init (from_diag 4 (1 / 4) 1 1), 1, 1) =
     Inr (Arr4 [1, 0, 0, 0, 1 / 4, 0, 0, 0] [0, 1 / 4, 0, 0, 0, 1, 0, 0]
               [0, 0, 1, 0, 0, 0, 1, 0] [0, 0, 0, 1, 0, 0, 0, 1], 1, 4) \<and>
   snd (find_pivot (Arr4 [1, 0, 0, 0, 1 / 4, 0, 0, 0] [0, 1 / 4, 0, 0, 0, 1, 0, 0]
               [0, 0, 1, 0, 0, 0, 1, 0] [0, 0, 0, 1, 0, 0, 0, 1]) 1) < 1 / 2 \<and>
   \<not> fst (inverse4 (from_diag 4 (1 / 4) 1 1) identity 0 0 (1 / 2)) \<and>
   fst (snd (inverse4 (from_diag 4 (1 / 4) 1 1) identity 0 0 (1 / 2))) = identity"
proof -
  let ?A = "Arr4 (Arr4 1 2 0 1) (Arr4 3 1 1 0) (Arr4 0 0 0 0) (Arr4 1 0 2 (5::real))"
  let ?aug = "Arr4 [1, 0, 0, 0, 1 / 4, 0, 0, 0] [0, 1 / 4, 0, 0, 0, 1, 0, 0]
               [0, 0, 1, 0, 0, 0, 1, 0] [0, 0, 0, 1, 0, 0, 0, (1::real)]"
  have z: "\<exists>r<4. \<forall>c<4. m4 ?A r c = 0"
    by (rule exI[of _ 2]) (simp add: all_lt4)
  have f: "forward_elim (1 / 2) [0 ..< 1] (aug_init (from_diag 4 (1 / 4) 1 1), 1, 1) =
             Inr (?aug, 1, 4)"
    by code_simp
  have p: "snd (find_pivot ?aug 1) < 1 / 2"
    by code_simp
  from inverse_reports_failure
    [where A = ?A and Ainv = identity and od = 0 and oc = 0]
    inverse_reports_failure
    [where k = 1 and eps = "1 / 2" and A = "from_diag 4 (1 / 4) 1 1" and aug = ?aug
       and sign = 1 and d = 4 and Ainv = identity and od = 0 and oc = 0]
    z f p
  show ?thesis by simp
qed

lemma inverse4_fail_keeps_Ainv:
  "\<not> fst (inverse4 A Ainv od oc eps) \<Longrightarrow> fst (snd (inverse4 A Ainv od oc eps)) = Ainv"
  by (simp add: inverse4_def Let_def split: sum.splits prod.splits)

text \<open>
  Claim C10. Whenever \<^verbatim>\<open>prepare_metric(F, x)\<close> reports that the inversion failed
  (\<open>inv_ok\<close> is false), the field \<open>g_inv\<close> of the returned pack is the all-zero matrix:
  \<^verbatim>\<open>inverse\<close> returns before it writes its output argument, and the argument passed in is
  a default-initialised matrix.
\<close>

theorem prepare_metric_failed_inverse_zero:
  "\<not> inv_ok (prepare_metric K F x) \<Longrightarrow> g_inv (prepare_metric K F x) = mat4_default"
  unfolding inv_ok_prepare_metric g_inv_prepare_metric
  by (rule inverse4_fail_keeps_Ainv)

theorem prepare_metric_failed_inverse_zero_witness:
  "\<not> inv_ok (prepare_metric C_default (\<lambda>x. from_diag (- 1) 1 1 0) (Arr4 0 0 0 0)) \<and>
   g_inv (prepare_metric C_default (\<lambda>x. from_diag (- 1) 1 1 0) (Arr4 0 0 0 0)) =
     Arr4 (Arr4 0 0 0 0) (Arr4 0 0 0 0) (Arr4 0 0 0 0) (Arr4 0 0 0 0)"
proof -
  have "fst (inverse4 (from_diag (- 1) 1 1 0) mat4_default 0 0 (1 / 10 ^ 14)) = False"
    by code_simp
  then have h: "\<not> inv_ok (prepare_metric C_default (\<lambda>x. from_diag (- 1) 1 1 0) (Arr4 0 0 0 0))"
    by (simp only: inv_ok_prepare_metric) simp
  from prepare_metric_failed_inverse_zero[OF h] h show ?thesis
    by (simp add: mat4_default_def vec4_default_def)
qed

section \<open>The positive-definite proxy and the Cholesky check\<close>














end
